theory Spec2Isabelle
  imports Complex_Main "HOL-Library.Sublist" "HOL-Library.Char_ord" "HOL-Library.List_Lexorder"
begin

section \<open>Strings and the regular expressions of the source\<close>

text \<open>
  Python strings are modelled as \<open>string\<close> (lists of 8-bit characters). On this
  alphabet the class \<open>\d\<close> of Python's \<open>re\<close> is the ten ASCII digits, and
  \<open>str.lower\<close> is modelled on the ASCII letters. \<open>s.startswith(p)\<close> is
  \<open>prefix p s\<close>, \<open>p in s\<close> on strings is \<open>sublist p s\<close>, and \<open>s[1:]\<close> is
  \<open>drop 1 s\<close>.
\<close>

definition is_digit :: "char \<Rightarrow> bool" where
  "is_digit c = (c \<in> set ''0123456789'')"

definition is_space :: "char \<Rightarrow> bool" where
  \<comment> \<open>the class \<open>\s\<close> and the characters \<open>str.strip\<close> removes, below code point 128:
      space, tab, newline, vertical tab, form feed, carriage return, and the four separators
      \<open>0x1C\<close> to \<open>0x1F\<close>\<close>
  "is_space c = (c \<in> set [CHR '' '', CHR 0x09, CHR 0x0A, CHR 0x0B, CHR 0x0C, CHR 0x0D,
                           CHR 0x1C, CHR 0x1D, CHR 0x1E, CHR 0x1F])"

definition lower_char :: "char \<Rightarrow> char" where
  "lower_char c =
     (case map_of (zip ''ABCDEFGHIJKLMNOPQRSTUVWXYZ'' ''abcdefghijklmnopqrstuvwxyz'') c of
        None \<Rightarrow> c | Some l \<Rightarrow> l)"

definition lower :: "string \<Rightarrow> string" where
  "lower s = map lower_char s"

definition keep_digits_plus :: "string \<Rightarrow> string" where
  \<comment> \<open>\<open>re.sub(r'[^\d+]', '', s)\<close>: delete every character that is neither a digit nor \<open>+\<close>\<close>
  "keep_digits_plus s = filter (\<lambda>c. is_digit c \<or> c = CHR ''+'') s"

definition match_lit_digits :: "string \<Rightarrow> string \<Rightarrow> string option" where
  \<comment> \<open>the pattern \<open>lit(\d+)\<close> anchored at the start of \<open>s\<close>: the group is the longest run of digits\<close>
  "match_lit_digits lit s =
     (if prefix lit s
      then (let d = takeWhile is_digit (drop (length lit) s) in if d = [] then None else Some d)
      else None)"

fun search_lit_digits :: "string \<Rightarrow> string \<Rightarrow> string option" where
  \<comment> \<open>\<open>re.search\<close> for \<open>lit(\d+)\<close>: group 1 of the leftmost match\<close>
  "search_lit_digits lit [] = match_lit_digits lit []"
| "search_lit_digits lit (c # cs) =
     (case match_lit_digits lit (c # cs) of
        Some d \<Rightarrow> Some d
      | None \<Rightarrow> search_lit_digits lit cs)"

section \<open>models.py: the field validator of \<open>DecisionMaker.whatsapp\<close>\<close>

definition normalize_whatsapp :: "string option \<Rightarrow> string option" where
  "normalize_whatsapp v =
     (case v of
        None \<Rightarrow> None
      | Some s \<Rightarrow>
          if s = [] then None
          else (case search_lit_digits ''wa.me/'' s of
                  Some d \<Rightarrow> Some (''+'' @ d)
                | None \<Rightarrow>
                   (case search_lit_digits ''phone='' s of
                      Some d \<Rightarrow> Some (''+'' @ d)
                    | None \<Rightarrow>
                       (let cleaned = keep_digits_plus s in
                        if prefix ''08'' cleaned then Some (''+62'' @ drop 1 cleaned)
                        else if prefix ''62'' cleaned then Some (''+'' @ cleaned)
                        else if prefix ''+62'' cleaned then Some cleaned
                        else Some s))))"

section \<open>scraper.py and validator.py: phone normalisation\<close>

definition normalize_indonesian_phone :: "string \<Rightarrow> string option" where
  \<comment> \<open>\<open>WebScraper._normalize_indonesian_phone\<close>\<close>
  "normalize_indonesian_phone phone =
     (if phone = [] then None
      else (let cleaned = keep_digits_plus phone in
            if length cleaned < 10 then None
            else if prefix ''08'' cleaned then Some (''+62'' @ drop 1 cleaned)
            else if prefix ''62'' cleaned \<and> \<not> prefix ''+'' cleaned then Some (''+'' @ cleaned)
            else if prefix ''+62'' cleaned then Some cleaned
            else if prefix ''0'' cleaned then Some (''+62'' @ drop 1 cleaned)
            else None))"

definition normalize_phone :: "string \<Rightarrow> string option" where
  \<comment> \<open>\<open>ContactValidator._normalize_phone\<close>: the same cases, without a length check\<close>
  "normalize_phone phone =
     (if phone = [] then None
      else (let cleaned = keep_digits_plus phone in
            if prefix ''08'' cleaned then Some (''+62'' @ drop 1 cleaned)
            else if prefix ''62'' cleaned \<and> \<not> prefix ''+'' cleaned then Some (''+'' @ cleaned)
            else if prefix ''+62'' cleaned then Some cleaned
            else None))"

section \<open>validator.py: \<open>ContactValidator.verify_whatsapp\<close>\<close>

record wa_result =
  exists :: bool
  is_mobile :: bool
  is_valid_format :: bool

type_synonym whatsapp_cache = "string \<rightharpoonup> bool"

definition digits_8_10 :: "string \<Rightarrow> bool" where
  \<comment> \<open>\<open>\d{8,10}\<close> against a whole string\<close>
  "digits_8_10 r = (8 \<le> length r \<and> length r \<le> 10 \<and> (\<forall>c \<in> set r. is_digit c))"

definition mobile_pattern :: "string \<Rightarrow> bool" where
  \<comment> \<open>\<open>re.match(r'^\+628\d{8,10}$', s)\<close>; in Python \<open>$\<close> also matches just before a
      newline that ends the string\<close>
  "mobile_pattern s =
     (prefix ''+628'' s \<and>
      (let r = drop 4 s
       in digits_8_10 r \<or> (r \<noteq> [] \<and> last r = CHR 0x0A \<and> digits_8_10 (butlast r))))"

definition check_whatsapp_api :: "string \<Rightarrow> bool" where
  \<comment> \<open>\<open>_check_whatsapp_api\<close> is a placeholder in the source: it logs a warning and returns False\<close>
  "check_whatsapp_api phone_number = False"

definition verify_whatsapp :: "whatsapp_cache \<Rightarrow> string \<Rightarrow> bool \<Rightarrow> wa_result \<times> whatsapp_cache" where
  "verify_whatsapp cache phone_number use_api =
     (let result = \<lparr>exists = False, is_mobile = False, is_valid_format = False\<rparr> in
      case normalize_phone phone_number of
        None \<Rightarrow> (result, cache)
      | Some normalized \<Rightarrow>
          if normalized = [] then (result, cache)
          else
            (let result = result\<lparr>is_valid_format := True\<rparr>;
                 result = (if prefix ''+628'' normalized \<or> prefix ''+62 8'' normalized
                           then result\<lparr>is_mobile := True\<rparr> else result)
             in case cache normalized of
                  Some b \<Rightarrow> (result\<lparr>exists := b\<rparr>, cache)
                | None \<Rightarrow>
                   (let result =
                          (if use_api then result\<lparr>exists := check_whatsapp_api normalized\<rparr>
                           else if mobile_pattern (filter (\<lambda>c. c \<noteq> CHR '' '') normalized)
                                then result\<lparr>exists := True, is_mobile := True\<rparr>
                                else result)
                    in (result, cache(normalized \<mapsto> exists result)))))"

section \<open>models.py: the data model and the quality score\<close>

datatype RolePriority = HIGHEST | HIGH | MEDIUM | LOW | LOWEST


record DecisionMaker =
  name :: "string option"
  role :: "string option"
  role_indonesian :: "string option"
  priority :: RolePriority
  email :: "string option"
  phone :: "string option"
  whatsapp :: "string option"
  whatsapp_verified :: bool
  email_verified :: bool
  email_is_personal :: bool
  linkedin_url :: "string option"
  source_url :: "string option"
  confidence :: rat








section \<open>extractor.py: \<open>LLMExtractor.validate_and_deduplicate\<close>\<close>





section \<open>scraper.py: \<open>WebScraper.scrape_school_website\<close>\<close>

















section \<open>scraper.py: \<open>WebScraper.extract_whatsapp_links\<close>\<close>

text \<open>
  The three patterns are compiled with \<open>re.IGNORECASE\<close>: a literal of the pattern,
  written in lower case, matches at the start of \<open>s\<close> when it is a prefix of \<open>lower s\<close>.
  \<open>finditer\<close> scans from left to right and resumes after the end of each match.
\<close>

function finditer_lit_digits :: "string \<Rightarrow> string \<Rightarrow> string list" where
  \<comment> \<open>group 1 of every match of \<open>lit(\d+)\<close>\<close>
  "finditer_lit_digits lit [] = []"
| "finditer_lit_digits lit (c # cs) =
     (if prefix lit (lower (c # cs)) \<and> takeWhile is_digit (drop (length lit) (c # cs)) \<noteq> []
      then takeWhile is_digit (drop (length lit) (c # cs)) #
           finditer_lit_digits lit
             (drop (length lit + length (takeWhile is_digit (drop (length lit) (c # cs)))) (c # cs))
      else finditer_lit_digits lit cs)"
  by pat_completeness auto
termination
  by (relation "measure (\<lambda>(lit, s). length s)") (auto simp: neq_Nil_conv)

definition sep_char :: "char \<Rightarrow> bool" where
  \<comment> \<open>the class \<open>[:\s]\<close>\<close>
  "sep_char c = (c = CHR '':'' \<or> is_space c)"

definition phone_char :: "char \<Rightarrow> bool" where
  \<comment> \<open>the class \<open>[\d\s\-()]\<close>\<close>
  "phone_char c = (is_digit c \<or> is_space c \<or> c = CHR ''-'' \<or> c = CHR ''('' \<or> c = CHR '')'')"

fun match_number :: "nat \<Rightarrow> string \<Rightarrow> (string \<times> nat) option" where
  \<comment> \<open>\<open>[:\s]*([+]?[\d\s\-()]+)\<close> at the start of \<open>r\<close>, the star having taken \<open>j\<close>
      characters: the group and the length of the match. The optional \<open>+\<close> is tried first;
      when the group cannot match, the star gives one character back.\<close>
  "match_number 0 r =
     (if r \<noteq> [] \<and> hd r = CHR ''+'' \<and> takeWhile phone_char (tl r) \<noteq> []
      then Some (CHR ''+'' # takeWhile phone_char (tl r), 1 + length (takeWhile phone_char (tl r)))
      else if takeWhile phone_char r \<noteq> []
      then Some (takeWhile phone_char r, length (takeWhile phone_char r))
      else None)"
| "match_number (Suc j) r =
     (if drop (Suc j) r \<noteq> [] \<and> hd (drop (Suc j) r) = CHR ''+'' \<and>
         takeWhile phone_char (tl (drop (Suc j) r)) \<noteq> []
      then Some (CHR ''+'' # takeWhile phone_char (tl (drop (Suc j) r)),
                 Suc j + 1 + length (takeWhile phone_char (tl (drop (Suc j) r))))
      else if takeWhile phone_char (drop (Suc j) r) \<noteq> []
      then Some (takeWhile phone_char (drop (Suc j) r),
                 Suc j + length (takeWhile phone_char (drop (Suc j) r)))
      else match_number j r)"

definition match_label :: "string \<Rightarrow> nat option" where
  \<comment> \<open>\<open>(?:WA|WhatsApp|Whatsapp)\<close> at the start of \<open>s\<close>: the length of the label\<close>
  "match_label s =
     (if prefix ''wa'' (lower s) then Some 2
      else if prefix ''whatsapp'' (lower s) then Some 8
      else None)"

definition match_labelled :: "string \<Rightarrow> (string \<times> nat) option" where
  \<comment> \<open>the whole pattern at the start of \<open>s\<close>: group 1 and the length of the match\<close>
  "match_labelled s =
     (case match_label s of
        None \<Rightarrow> None
      | Some n \<Rightarrow>
          (case match_number (length (takeWhile sep_char (drop n s))) (drop n s) of
             None \<Rightarrow> None
           | Some (g, e) \<Rightarrow> Some (g, n + e)))"

lemma match_labelled_length: "match_labelled s = Some (g, e) \<Longrightarrow> 0 < e"
  by (auto simp: match_labelled_def match_label_def split: option.splits if_splits)

function finditer_labelled :: "string \<Rightarrow> string list" where
  \<comment> \<open>group 1 of every match of \<open>(?:WA|WhatsApp|Whatsapp)[:\s]*([+]?[\d\s\-()]+)\<close>\<close>
  "finditer_labelled [] = []"
| "finditer_labelled (c # cs) =
     (case match_labelled (c # cs) of
        None \<Rightarrow> finditer_labelled cs
      | Some (g, e) \<Rightarrow> g # finditer_labelled (drop e (c # cs)))"
  by pat_completeness auto
termination
  by (relation "measure length") (auto dest: match_labelled_length)

definition wa_link_number :: "string \<Rightarrow> string" where
  \<comment> \<open>the body of the two loops over the link patterns\<close>
  "wa_link_number num = (if prefix ''62'' num then ''+'' @ num else ''+62'' @ num)"

definition extract_whatsapp_links :: "string \<Rightarrow> string list" where
  \<comment> \<open>\<open>list(set(xs))\<close> has no specified order in Python; the model keeps one occurrence of each\<close>
  "extract_whatsapp_links text =
     remdups
       (map wa_link_number (finditer_lit_digits ''wa.me/'' text) @
        map wa_link_number (finditer_lit_digits ''api.whatsapp.com/send?phone='' text) @
        List.map_filter (\<lambda>g. normalize_indonesian_phone (keep_digits_plus g))
          (finditer_labelled text))"

section \<open>main.py: \<open>enrich_school\<close> and \<open>enrich_batch\<close>\<close>

datatype ProcessingStatus = PENDING | SEARCHING | SCRAPING | EXTRACTING | COMPLETED | FAILED








section \<open>Example records\<close>












section \<open>Properties of the normalisers\<close>

lemma search_lit_digits_skip:
  "(\<forall>i < length pre. match_lit_digits lit (drop i (pre @ rest)) = None) \<Longrightarrow>
   search_lit_digits lit (pre @ rest) = search_lit_digits lit rest"
proof (induction pre)
  case Nil
  then show ?case by simp
next
  case (Cons c pre)
  have h0: "match_lit_digits lit (c # pre @ rest) = None"
    using Cons.prems by (auto dest: spec [of _ 0])
  have "\<forall>i < length pre. match_lit_digits lit (drop i (pre @ rest)) = None"
  proof (intro allI impI)
    fix i assume "i < length pre"
    then have "Suc i < length (c # pre)" by simp
    with Cons.prems have "match_lit_digits lit (drop (Suc i) ((c # pre) @ rest)) = None" by blast
    then show "match_lit_digits lit (drop i (pre @ rest)) = None" by simp
  qed
  with Cons.IH h0 show ?case by simp
qed

lemma takeWhile_digits_run:
  "\<forall>c \<in> set ds. is_digit c \<Longrightarrow> post = [] \<or> \<not> is_digit (hd post) \<Longrightarrow>
   takeWhile is_digit (ds @ post) = ds"
proof -
  assume a: "\<forall>c \<in> set ds. is_digit c" and b: "post = [] \<or> \<not> is_digit (hd post)"
  from b have "takeWhile is_digit post = []" by (cases post) auto
  with a show ?thesis by (simp add: takeWhile_append2)
qed

lemma match_lit_digits_at:
  "ds \<noteq> [] \<Longrightarrow> \<forall>c \<in> set ds. is_digit c \<Longrightarrow> post = [] \<or> \<not> is_digit (hd post) \<Longrightarrow>
   match_lit_digits lit (lit @ ds @ post) = Some ds"
  using takeWhile_digits_run [of ds post] by (simp add: match_lit_digits_def)

lemma search_lit_digits_at:
  "ds \<noteq> [] \<Longrightarrow> \<forall>c \<in> set ds. is_digit c \<Longrightarrow> post = [] \<or> \<not> is_digit (hd post) \<Longrightarrow>
   search_lit_digits lit (lit @ ds @ post) = Some ds"
  using match_lit_digits_at [of ds post lit]
  by (cases "lit @ ds @ post") (auto simp del: append_Cons)

lemma search_lit_digits_leftmost:
  assumes "ds \<noteq> []" "\<forall>c \<in> set ds. is_digit c" "post = [] \<or> \<not> is_digit (hd post)"
    and "\<forall>i < length pre. match_lit_digits lit (drop i (pre @ lit @ ds @ post)) = None"
  shows "search_lit_digits lit (pre @ lit @ ds @ post) = Some ds"
  using search_lit_digits_skip [OF assms(4)] search_lit_digits_at [OF assms(1-3)] by simp

lemma search_lit_digits_None:
  "search_lit_digits lit s = None \<longleftrightarrow> (\<forall>i \<le> length s. match_lit_digits lit (drop i s) = None)"
proof (induction s)
  case Nil show ?case by simp
next
  case (Cons c cs)
  show ?case
  proof (cases "match_lit_digits lit (c # cs)")
    case None
    have "(\<forall>i \<le> length (c # cs). match_lit_digits lit (drop i (c # cs)) = None)
       \<longleftrightarrow> (\<forall>i \<le> length cs. match_lit_digits lit (drop i cs) = None)"
      (is "?L \<longleftrightarrow> ?R")
    proof
      assume L: ?L show ?R
      proof (intro allI impI)
        fix i assume "i \<le> length cs"
        then have "Suc i \<le> length (c # cs)" by simp
        with L have "match_lit_digits lit (drop (Suc i) (c # cs)) = None" by blast
        then show "match_lit_digits lit (drop i cs) = None" by simp
      qed
    next
      assume R: ?R show ?L
      proof (intro allI impI)
        fix i assume "i \<le> length (c # cs)"
        then show "match_lit_digits lit (drop i (c # cs)) = None"
          using None R by (cases i) auto
      qed
    qed
    with None Cons.IH show ?thesis by simp
  next
    case (Some d)
    then have "\<not> (\<forall>i \<le> length (c # cs). match_lit_digits lit (drop i (c # cs)) = None)"
      by (auto intro!: exI [of _ 0])
    with Some show ?thesis by simp
  qed
qed

text \<open>
  Claim C10. When the value assigned to \<open>DecisionMaker.whatsapp\<close> contains a
  \<open>wa.me/<digits>\<close> link (the leftmost one is taken), or no such link and a
  \<open>phone=<digits>\<close> parameter, the field validator returns \<open>+\<close> followed by exactly
  those digits: no country-code fix-up and no minimum length. A value containing
  \<open>wa.me/081234567890\<close> gives \<open>+081234567890\<close>, which does not begin with \<open>+62\<close>, whereas
  the scraper's normalisation of \<open>081234567890\<close> gives \<open>+6281234567890\<close>.
\<close>

theorem normalize_whatsapp_link_verbatim:
  "(ds \<noteq> [] \<and> (\<forall>c \<in> set ds. is_digit c) \<and> (post = [] \<or> \<not> is_digit (hd post)) \<longrightarrow>
      ((\<forall>i < length pre. match_lit_digits ''wa.me/'' (drop i (pre @ ''wa.me/'' @ ds @ post)) = None)
         \<longrightarrow> normalize_whatsapp (Some (pre @ ''wa.me/'' @ ds @ post)) = Some (''+'' @ ds)) \<and>
      (search_lit_digits ''wa.me/'' (pre @ ''phone='' @ ds @ post) = None \<and>
       (\<forall>i < length pre. match_lit_digits ''phone='' (drop i (pre @ ''phone='' @ ds @ post)) = None)
         \<longrightarrow> normalize_whatsapp (Some (pre @ ''phone='' @ ds @ post)) = Some (''+'' @ ds))) \<and>
   normalize_whatsapp (Some ''https://wa.me/081234567890'') = Some ''+081234567890'' \<and>
   normalize_indonesian_phone ''081234567890'' = Some ''+6281234567890'' \<and>
   normalize_whatsapp (Some ''wa.me/1'') = Some ''+1''"
proof -
  have a: "normalize_whatsapp (Some (pre @ ''wa.me/'' @ ds @ post)) = Some (''+'' @ ds)"
    if "ds \<noteq> []" "\<forall>c \<in> set ds. is_digit c" "post = [] \<or> \<not> is_digit (hd post)"
      "\<forall>i < length pre. match_lit_digits ''wa.me/'' (drop i (pre @ ''wa.me/'' @ ds @ post)) = None"
    using search_lit_digits_leftmost [OF that] by (simp add: normalize_whatsapp_def)
  have b: "normalize_whatsapp (Some (pre @ ''phone='' @ ds @ post)) = Some (''+'' @ ds)"
    if "ds \<noteq> []" "\<forall>c \<in> set ds. is_digit c" "post = [] \<or> \<not> is_digit (hd post)"
      "\<forall>i < length pre. match_lit_digits ''phone='' (drop i (pre @ ''phone='' @ ds @ post)) = None"
      "search_lit_digits ''wa.me/'' (pre @ ''phone='' @ ds @ post) = None"
    using search_lit_digits_leftmost [OF that(1-4)] that(5) by (simp add: normalize_whatsapp_def)
  have c: "normalize_whatsapp (Some ''https://wa.me/081234567890'') = Some ''+081234567890''"
    by (simp add: normalize_whatsapp_def match_lit_digits_def is_digit_def)
  have d: "normalize_indonesian_phone ''081234567890'' = Some ''+6281234567890''"
    by (simp add: normalize_indonesian_phone_def keep_digits_plus_def is_digit_def)
  have e: "normalize_whatsapp (Some ''wa.me/1'') = Some ''+1''"
    by (simp add: normalize_whatsapp_def match_lit_digits_def is_digit_def)
  from a b c d e show ?thesis by blast
qed

theorem normalize_whatsapp_link_verbatim_witness:
  "normalize_whatsapp (Some ''chat: wa.me/0812 now'') = Some ''+0812'' \<and>
   normalize_whatsapp (Some ''send?phone=0812&x'') = Some ''+0812''"
proof -
  have h: "''0812'' \<noteq> []" "\<forall>c \<in> set ''0812''. is_digit c"
    by (simp_all add: is_digit_def)
  have p1: "'' now'' = [] \<or> \<not> is_digit (hd '' now'')" and p2: "''&x'' = [] \<or> \<not> is_digit (hd ''&x'')"
    by (simp_all add: is_digit_def)
  have n1: "\<forall>i < length ''chat: ''. match_lit_digits ''wa.me/'' (drop i (''chat: '' @ ''wa.me/'' @ ''0812'' @ '' now'')) = None"
    by (simp add: match_lit_digits_def All_less_Suc2 numeral_eq_Suc)
  have n2: "\<forall>i < length ''send?''. match_lit_digits ''phone='' (drop i (''send?'' @ ''phone='' @ ''0812'' @ ''&x'')) = None"
    by (simp add: match_lit_digits_def All_less_Suc2 numeral_eq_Suc)
  have n3: "search_lit_digits ''wa.me/'' (''send?'' @ ''phone='' @ ''0812'' @ ''&x'') = None"
    by (simp add: match_lit_digits_def)
  show ?thesis
    using normalize_whatsapp_link_verbatim [of "''0812''" "'' now''" "''chat: ''"]
      normalize_whatsapp_link_verbatim [of "''0812''" "''&x''" "''send?''"] h p1 p2 n1 n2 n3
    by simp
qed

lemma keep_digits_plus_digits:
  "\<forall>c \<in> set ds. is_digit c \<Longrightarrow> keep_digits_plus ds = ds"
  by (simp add: keep_digits_plus_def)

lemma is_digit_0 [simp]: "is_digit CHR ''0''" and is_digit_8 [simp]: "is_digit CHR ''8''"
  by (simp_all add: is_digit_def)

lemma keep_digits_plus_08:
  "\<forall>c \<in> set ds. is_digit c \<Longrightarrow> keep_digits_plus (''08'' @ ds) = ''08'' @ ds"
  by (simp add: keep_digits_plus_def)

text \<open>
  Claim C6 as stated fails twice. The scraper's normaliser compares the length of the
  cleaned string, in which a leading \<open>+\<close> counts, so a match with nine digits passes; and
  the validator's normaliser has no length check at all.
\<close>

theorem normalize_phone_counterexample:
  "length (filter is_digit (keep_digits_plus ''+62 8123456'')) < 10 \<and>
   normalize_indonesian_phone ''+62 8123456'' = Some ''+628123456'' \<and>
   length (keep_digits_plus ''0812'') < 10 \<and>
   normalize_phone ''0812'' = Some ''+62812''"
  by (simp add: normalize_indonesian_phone_def normalize_phone_def keep_digits_plus_def is_digit_def)

text \<open>
  Claim C6, amended. For \<open>08\<close> followed by 8 to 11 digits both normalisers return \<open>+62\<close>
  followed by the input without its leading \<open>0\<close>; the scraper's normaliser returns None
  whenever the cleaned string (digits and \<open>+\<close> signs) has fewer than 10 characters.
\<close>

theorem normalize_phone_08_and_rejection:
  "((\<forall>c \<in> set ds. is_digit c) \<and> 8 \<le> length ds \<and> length ds \<le> 11 \<longrightarrow>
      normalize_indonesian_phone (''08'' @ ds) = Some (''+62'' @ drop 1 (''08'' @ ds)) \<and>
      normalize_phone (''08'' @ ds) = Some (''+62'' @ drop 1 (''08'' @ ds))) \<and>
   (length (keep_digits_plus y) < 10 \<longrightarrow> normalize_indonesian_phone y = None)"
proof -
  have a: "normalize_indonesian_phone (''08'' @ ds) = Some (''+62'' @ drop 1 (''08'' @ ds))"
    if "\<forall>c \<in> set ds. is_digit c" "8 \<le> length ds" for ds
    using that keep_digits_plus_08 [of ds] by (simp add: normalize_indonesian_phone_def)
  have b: "normalize_phone (''08'' @ ds) = Some (''+62'' @ drop 1 (''08'' @ ds))"
    if "\<forall>c \<in> set ds. is_digit c" for ds
    using that keep_digits_plus_08 [of ds] by (simp add: normalize_phone_def)
  have c: "normalize_indonesian_phone y = None" if "length (keep_digits_plus y) < 10"
    using that by (simp add: normalize_indonesian_phone_def Let_def)
  from a b c show ?thesis by blast
qed

theorem normalize_phone_08_and_rejection_witness:
  "normalize_indonesian_phone ''0812345678'' = Some ''+62812345678'' \<and>
   normalize_phone ''0812345678'' = Some ''+62812345678'' \<and>
   normalize_indonesian_phone ''081-234'' = None"
  using normalize_phone_08_and_rejection [of "''12345678''" "''081-234''"]
  by (simp add: is_digit_def keep_digits_plus_def)

(* C8 *)

section \<open>Properties of \<open>verify_whatsapp\<close>\<close>

lemma normalize_phone_Some_shape:
  "normalize_phone p = Some n \<Longrightarrow> n \<noteq> [] \<and> (\<forall>c \<in> set n. is_digit c \<or> c = CHR ''+'')"
proof -
  assume h: "normalize_phone p = Some n"
  let ?ok = "\<lambda>c. is_digit c \<or> c = CHR ''+''"
  let ?cl = "keep_digits_plus p"
  have k: "\<forall>c \<in> set ?cl. ?ok c" by (simp add: keep_digits_plus_def)
  then have d: "\<forall>c \<in> set (drop 1 ?cl). ?ok c" by (meson in_set_dropD)
  have lit: "\<forall>c \<in> set ''+62''. ?ok c" by (simp add: is_digit_def)
  from h have "n = ''+62'' @ drop 1 ?cl \<or> n = ''+'' @ ?cl \<or> (n = ?cl \<and> prefix ''+62'' ?cl)"
    by (auto simp: normalize_phone_def Let_def split: if_splits)
  then show ?thesis
  proof (elim disjE conjE)
    assume "n = ''+62'' @ drop 1 ?cl" with d lit show ?thesis by auto
  next
    assume "n = ''+'' @ ?cl" with k show ?thesis by auto
  next
    assume "n = ?cl" "prefix ''+62'' ?cl" with k show ?thesis by auto
  qed
qed

lemma filter_no_space:
  "\<forall>c \<in> set n. is_digit c \<or> c = CHR ''+'' \<Longrightarrow> filter (\<lambda>c. c \<noteq> CHR '' '') n = n"
  by (induction n) (auto simp: is_digit_def)

lemma mobile_pattern_iff:
  assumes "\<forall>c \<in> set n. is_digit c \<or> c = CHR ''+''"
  shows "mobile_pattern n \<longleftrightarrow>
         (\<exists>ds. n = ''+628'' @ ds \<and> 8 \<le> length ds \<and> length ds \<le> 10 \<and> (\<forall>c \<in> set ds. is_digit c))"
proof
  assume m: "mobile_pattern n"
  then have "prefix ''+628'' n" by (simp add: mobile_pattern_def)
  then obtain ds where n: "n = ''+628'' @ ds" by (auto simp: prefix_def)
  have dr: "drop 4 n = ds" by (simp add: n)
  have nl: "\<not> (ds \<noteq> [] \<and> last ds = CHR 0x0A)"
  proof
    assume h: "ds \<noteq> [] \<and> last ds = CHR 0x0A"
    then have ne: "ds \<noteq> []" and la: "last ds = CHR 0x0A" by blast+
    from last_in_set [OF ne] have "CHR 0x0A \<in> set ds" by (simp only: la)
    then have "CHR 0x0A \<in> set n" by (simp add: n)
    with assms have "is_digit (CHR 0x0A) \<or> CHR 0x0A = CHR ''+''" by blast
    then show False by (simp add: is_digit_def)
  qed
  from m have "digits_8_10 ds \<or> (ds \<noteq> [] \<and> last ds = CHR 0x0A \<and> digits_8_10 (butlast ds))"
    by (simp add: mobile_pattern_def Let_def dr)
  with nl have "digits_8_10 ds" by blast
  then have "8 \<le> length ds \<and> length ds \<le> 10 \<and> (\<forall>c \<in> set ds. is_digit c)"
    by (simp add: digits_8_10_def)
  with n show "\<exists>ds. n = ''+628'' @ ds \<and> 8 \<le> length ds \<and> length ds \<le> 10 \<and> (\<forall>c \<in> set ds. is_digit c)"
    by (intro exI [of _ ds]) simp
next
  assume "\<exists>ds. n = ''+628'' @ ds \<and> 8 \<le> length ds \<and> length ds \<le> 10 \<and> (\<forall>c \<in> set ds. is_digit c)"
  then obtain ds where n: "n = ''+628'' @ ds" and d: "digits_8_10 ds"
    by (auto simp: digits_8_10_def)
  have "prefix ''+628'' n" by (simp add: n)
  moreover have "drop 4 n = ds" by (simp add: n)
  ultimately show "mobile_pattern n" using d by (simp add: mobile_pattern_def Let_def)
qed


lemma verify_whatsapp_None:
  "normalize_phone p = None \<Longrightarrow>
   verify_whatsapp cache p use_api = (\<lparr>exists = False, is_mobile = False, is_valid_format = False\<rparr>, cache)"
  by (simp add: verify_whatsapp_def)

lemma verify_whatsapp_cached:
  "normalize_phone p = Some n \<Longrightarrow> n \<noteq> [] \<Longrightarrow> cache n = Some b \<Longrightarrow>
   exists (fst (verify_whatsapp cache p use_api)) = b \<and> snd (verify_whatsapp cache p use_api) = cache"
  by (simp add: verify_whatsapp_def Let_def)

lemma verify_whatsapp_fresh:
  "normalize_phone p = Some n \<Longrightarrow> n \<noteq> [] \<Longrightarrow> cache n = None \<Longrightarrow>
   exists (fst (verify_whatsapp cache p use_api)) =
     (if use_api then check_whatsapp_api n else mobile_pattern (filter (\<lambda>c. c \<noteq> CHR '' '') n)) \<and>
   snd (verify_whatsapp cache p use_api) =
     cache(n \<mapsto> (if use_api then check_whatsapp_api n else mobile_pattern (filter (\<lambda>c. c \<noteq> CHR '' '') n)))"
  by (simp add: verify_whatsapp_def Let_def)



text \<open>
  Claim C8. \<open>verify_whatsapp\<close> normalises first and answers \<open>exists = False\<close> (and leaves
  the cache alone) when the format is invalid. With no cached entry for the normalised value
  and in heuristic mode, \<open>exists\<close> holds exactly when the normalised number is \<open>+628\<close>
  followed by 8 to 10 digits. A cached entry is returned as it is; after every call with a
  valid number the cache holds the answer under the normalised value, a later call with any
  spelling of the same number and any mode returns it, and no call changes an existing entry.
\<close>

theorem verify_whatsapp_heuristic_and_cache:
  "(normalize_phone p = None \<longrightarrow>
       \<not> exists (fst (verify_whatsapp cache p use_api)) \<and>
       \<not> is_valid_format (fst (verify_whatsapp cache p use_api)) \<and>
       snd (verify_whatsapp cache p use_api) = cache) \<and>
   (normalize_phone p = Some n \<and> cache n = None \<longrightarrow>
       (exists (fst (verify_whatsapp cache p False)) \<longleftrightarrow>
          (\<exists>ds. n = ''+628'' @ ds \<and> 8 \<le> length ds \<and> length ds \<le> 10 \<and> (\<forall>c \<in> set ds. is_digit c)))) \<and>
   (normalize_phone p = Some n \<and> cache n = Some b \<longrightarrow>
       exists (fst (verify_whatsapp cache p use_api)) = b \<and>
       snd (verify_whatsapp cache p use_api) = cache) \<and>
   (normalize_phone p = Some n \<longrightarrow>
       snd (verify_whatsapp cache p use_api) n = Some (exists (fst (verify_whatsapp cache p use_api)))) \<and>
   (normalize_phone p = Some n \<and> normalize_phone p' = Some n \<longrightarrow>
       exists (fst (verify_whatsapp (snd (verify_whatsapp cache p use_api)) p' use_api')) =
       exists (fst (verify_whatsapp cache p use_api))) \<and>
   (cache k = Some b \<longrightarrow> snd (verify_whatsapp cache p use_api) k = Some b)"
proof -
  have i1: "normalize_phone p = None \<longrightarrow>
       \<not> exists (fst (verify_whatsapp cache p use_api)) \<and>
       \<not> is_valid_format (fst (verify_whatsapp cache p use_api)) \<and>
       snd (verify_whatsapp cache p use_api) = cache"
    by (simp add: verify_whatsapp_None)
  have i2: "normalize_phone p = Some n \<and> cache n = None \<longrightarrow>
       (exists (fst (verify_whatsapp cache p False)) \<longleftrightarrow>
          (\<exists>ds. n = ''+628'' @ ds \<and> 8 \<le> length ds \<and> length ds \<le> 10 \<and> (\<forall>c \<in> set ds. is_digit c)))"
  proof
    assume h: "normalize_phone p = Some n \<and> cache n = None"
    from normalize_phone_Some_shape [of p n] h
    have s: "n \<noteq> []" "\<forall>c \<in> set n. is_digit c \<or> c = CHR ''+''" by blast+
    from verify_whatsapp_fresh [of p n cache False] h s(1)
    have "exists (fst (verify_whatsapp cache p False)) = mobile_pattern (filter (\<lambda>c. c \<noteq> CHR '' '') n)"
      by simp
    also have "\<dots> = mobile_pattern n" by (simp only: filter_no_space [OF s(2)])
    finally show "exists (fst (verify_whatsapp cache p False)) \<longleftrightarrow>
          (\<exists>ds. n = ''+628'' @ ds \<and> 8 \<le> length ds \<and> length ds \<le> 10 \<and> (\<forall>c \<in> set ds. is_digit c))"
      by (simp only: mobile_pattern_iff [OF s(2)])
  qed
  have c3: "exists (fst (verify_whatsapp cache p use_api)) = b \<and>
       snd (verify_whatsapp cache p use_api) = cache"
    if "normalize_phone p = Some n" "cache n = Some b" for cache p use_api b
    using that normalize_phone_Some_shape [of p n] by (intro verify_whatsapp_cached [of p n]) blast+
  have c4: "snd (verify_whatsapp cache p use_api) n = Some (exists (fst (verify_whatsapp cache p use_api)))"
    if h: "normalize_phone p = Some n" for cache p use_api
  proof (cases "cache n")
    case None
    from normalize_phone_Some_shape [OF h] have "n \<noteq> []" by blast
    from verify_whatsapp_fresh [of p n cache use_api] h this None show ?thesis by simp
  next
    case (Some b')
    from c3 [of p cache b' use_api] h Some show ?thesis by simp
  qed
  have i3: "normalize_phone p = Some n \<and> cache n = Some b \<longrightarrow>
       exists (fst (verify_whatsapp cache p use_api)) = b \<and>
       snd (verify_whatsapp cache p use_api) = cache"
    using c3 [of p cache b use_api] by blast
  have i4: "normalize_phone p = Some n \<longrightarrow>
       snd (verify_whatsapp cache p use_api) n = Some (exists (fst (verify_whatsapp cache p use_api)))"
    using c4 [of p cache use_api] by blast
  have i5: "normalize_phone p = Some n \<and> normalize_phone p' = Some n \<longrightarrow>
       exists (fst (verify_whatsapp (snd (verify_whatsapp cache p use_api)) p' use_api')) =
       exists (fst (verify_whatsapp cache p use_api))"
  proof
    assume h: "normalize_phone p = Some n \<and> normalize_phone p' = Some n"
    then have a: "normalize_phone p = Some n" and b: "normalize_phone p' = Some n" by blast+
    show "exists (fst (verify_whatsapp (snd (verify_whatsapp cache p use_api)) p' use_api')) =
       exists (fst (verify_whatsapp cache p use_api))"
      by (rule conjunct1 [OF c3 [where p = p' and cache = "snd (verify_whatsapp cache p use_api)"
                and use_api = use_api' and b = "exists (fst (verify_whatsapp cache p use_api))",
                OF b c4 [OF a]]])
  qed
  have i6: "cache k = Some b \<longrightarrow> snd (verify_whatsapp cache p use_api) k = Some b"
  proof
    assume kb: "cache k = Some b"
    show "snd (verify_whatsapp cache p use_api) k = Some b"
    proof (cases "normalize_phone p")
      case None
      with kb show ?thesis by (simp add: verify_whatsapp_None)
    next
      case (Some m)
      from normalize_phone_Some_shape [OF Some] have m: "m \<noteq> []" by blast
      show ?thesis
      proof (cases "cache m")
        case None
        with kb have "k \<noteq> m" by auto
        with verify_whatsapp_fresh [of p m cache use_api] Some m None kb show ?thesis by simp
      next
        case (Some b')
        with verify_whatsapp_cached [of p m cache b' use_api] \<open>normalize_phone p = Some m\<close> m kb show ?thesis by simp
      qed
    qed
  qed
  show ?thesis by (intro conjI i1 i2 i3 i4 i5 i6)
qed




theorem verify_whatsapp_heuristic_and_cache_witness:
  "\<not> exists (fst (verify_whatsapp Map.empty ''abc'' False)) \<and>
   exists (fst (verify_whatsapp Map.empty ''0812-3456-7890'' False)) \<and>
   exists (fst (verify_whatsapp [''+6281234567890'' \<mapsto> False] ''0812-3456-7890'' False)) = False \<and>
   snd (verify_whatsapp Map.empty ''0812-3456-7890'' False) ''+6281234567890'' = Some True \<and>
   exists (fst (verify_whatsapp (snd (verify_whatsapp Map.empty ''0812-3456-7890'' False)) ''+62 812 3456 7890'' True))"
proof -
  have n0: "normalize_phone ''abc'' = None"
    by (simp add: normalize_phone_def keep_digits_plus_def is_digit_def)
  have n1: "normalize_phone ''0812-3456-7890'' = Some ''+6281234567890''"
    by (simp add: normalize_phone_def keep_digits_plus_def is_digit_def)
  have n2: "normalize_phone ''+62 812 3456 7890'' = Some ''+6281234567890''"
    by (simp add: normalize_phone_def keep_digits_plus_def is_digit_def)
  have d: "\<exists>ds. ''+6281234567890'' = ''+628'' @ ds \<and> 8 \<le> length ds \<and> length ds \<le> 10 \<and> (\<forall>c \<in> set ds. is_digit c)"
    by (rule exI [of _ "''1234567890''"]) (simp add: is_digit_def)
  have e: "(Map.empty :: whatsapp_cache) ''+6281234567890'' = None" by simp
  have f: "[''+6281234567890'' \<mapsto> False] ''+6281234567890'' = Some False" by simp
  note t1 = verify_whatsapp_heuristic_and_cache [where p = "''abc''" and cache = Map.empty and use_api = False]
  note t2 = verify_whatsapp_heuristic_and_cache [where p = "''0812-3456-7890''" and cache = Map.empty
      and use_api = False and n = "''+6281234567890''" and p' = "''+62 812 3456 7890''" and use_api' = True]
  note t3 = verify_whatsapp_heuristic_and_cache [where p = "''0812-3456-7890''"
      and cache = "[''+6281234567890'' \<mapsto> False]" and use_api = False and n = "''+6281234567890''" and b = False]
  have a1: "\<not> exists (fst (verify_whatsapp Map.empty ''abc'' False))"
    using t1 n0 by blast
  have a2: "exists (fst (verify_whatsapp Map.empty ''0812-3456-7890'' False))"
    using t2 n1 e d by blast
  have a3: "exists (fst (verify_whatsapp [''+6281234567890'' \<mapsto> False] ''0812-3456-7890'' False)) = False"
    using t3 n1 f by blast
  have a4: "snd (verify_whatsapp Map.empty ''0812-3456-7890'' False) ''+6281234567890'' = Some True"
    using t2 n1 a2 by simp
  have a5: "exists (fst (verify_whatsapp (snd (verify_whatsapp Map.empty ''0812-3456-7890'' False)) ''+62 812 3456 7890'' True))"
    using t2 n1 n2 a2 by simp
  from a1 a2 a3 a4 a5 show ?thesis by blast
qed

section \<open>Properties of the quality score\<close>












section \<open>Properties of \<open>validate_and_deduplicate\<close>\<close>















section \<open>Properties of the orchestrator\<close>






section \<open>Properties of the crawl\<close>













end
